theory Spec2Isabelle
  imports Complex_Main
begin

section \<open>The colour mapper of \<open>PDFVectorProcessorPikePDF\<close>\<close>

text \<open>
  The development follows \<open>backend/pdf_processor_pikepdf.py\<close>, the processor that the
  command line and the HTTP entry points instantiate. Python floats are idealised as
  real numbers: every arithmetic operation is the exact one, so the theorems below speak
  about the formulas of the code and not about binary rounding.
\<close>

subsection \<open>Themes\<close>

type_synonym rgb8 = "int \<times> int \<times> int"

text \<open>The dictionary \<open>self.themes\<close> built by \<open>__init__\<close>.\<close>

definition themes :: "string \<rightharpoonup> rgb8" where
  "themes = map_of
     [(''classic'', (0, 0, 0)),
      (''claude'', (42, 37, 34)),
      (''chatgpt'', (52, 53, 65)),
      (''sepia'', (40, 35, 25)),
      (''midnight'', (25, 30, 45)),
      (''forest'', (25, 35, 30))]"

text \<open>\<open>self.bg_color = self.themes.get(theme, self.themes["classic"])\<close>\<close>

definition bg_color :: "string \<Rightarrow> rgb8" where
  "bg_color theme = (case themes theme of Some c \<Rightarrow> c | None \<Rightarrow> (0, 0, 0))"

text \<open>The three quotients \<open>self.bg_color[..] / 255.0\<close>.\<close>

definition bg_rgb :: "string \<Rightarrow> real \<times> real \<times> real" where
  "bg_rgb theme =
     (case bg_color theme of (r8, g8, b8) \<Rightarrow>
        (of_int r8 / 255, of_int g8 / 255, of_int b8 / 255))"

subsection \<open>HSV conversions\<close>

text \<open>
  Python's \<open>x % y\<close> on floats with a positive divisor: the remainder has the sign of the
  divisor, that is \<open>x - y * floor (x / y)\<close>.
\<close>

definition fmod :: "real \<Rightarrow> real \<Rightarrow> real" where
  "fmod x y = x - y * of_int \<lfloor>x / y\<rfloor>"

definition rgb_to_hsv :: "real \<Rightarrow> real \<Rightarrow> real \<Rightarrow> real \<times> real \<times> real" where
  "rgb_to_hsv r g b =
     (let max_val = max r (max g b);
          min_val = min r (min g b);
          diff = max_val - min_val;
          h = (if diff = 0 then 0
               else if max_val = r then fmod (60 * ((g - b) / diff) + 360) 360
               else if max_val = g then fmod (60 * ((b - r) / diff) + 120) 360
               else fmod (60 * ((r - g) / diff) + 240) 360);
          s = (if max_val = 0 then 0 else diff / max_val);
          v = max_val
      in (h / 360, s, v))"

definition hsv_to_rgb :: "real \<Rightarrow> real \<Rightarrow> real \<Rightarrow> real \<times> real \<times> real" where
  "hsv_to_rgb h0 s v =
     (let h = h0 * 360;
          c = v * s;
          x = c * (1 - \<bar>fmod (h / 60) 2 - 1\<bar>);
          m = v - c;
          rgb1 = (if 0 \<le> h \<and> h < 60 then (c, x, 0)
                  else if 60 \<le> h \<and> h < 120 then (x, c, 0)
                  else if 120 \<le> h \<and> h < 180 then (0, c, x)
                  else if 180 \<le> h \<and> h < 240 then (0, x, c)
                  else if 240 \<le> h \<and> h < 300 then (x, 0, c)
                  else (c, 0, x))
      in case rgb1 of (r1, g1, b1) \<Rightarrow> (r1 + m, g1 + m, b1 + m))"

subsection \<open>The three mappers\<close>

definition clamp01 :: "real \<Rightarrow> real" where
  "clamp01 x = min (max x 0) 1"

definition transform_rgb :: "string \<Rightarrow> real \<Rightarrow> real \<Rightarrow> real \<Rightarrow> real \<times> real \<times> real" where
  "transform_rgb theme r g b =
     (let brightness = 0.299 * r + 0.587 * g + 0.114 * b in
      if brightness > 0.93 then bg_rgb theme
      else case rgb_to_hsv r g b of (h, s, v) \<Rightarrow>
        if brightness < 0.15 \<and> s < 0.3 then (0.98, 0.98, 0.98)
        else if brightness < 0.15 then
          (case hsv_to_rgb h (min (s * 1.1) 1.0) (0.65 + (v / 0.15) * 0.2) of
             (new_r, new_g, new_b) \<Rightarrow> (clamp01 new_r, clamp01 new_g, clamp01 new_b))
        else if brightness < 0.4 then hsv_to_rgb h (s * 0.85) (0.75 + (v - 0.15) * 0.8)
        else if brightness < 0.6 then hsv_to_rgb h (s * 0.9) (0.65 + (v - 0.4) * 1.0)
        else hsv_to_rgb h s (0.5 + v * 0.5))"

definition transform_grayscale :: "string \<Rightarrow> real \<Rightarrow> real" where
  "transform_grayscale theme gray =
     (if gray > 0.93 then
        (case bg_color theme of (r8, g8, b8) \<Rightarrow>
           (0.299 * of_int r8 + 0.587 * of_int g8 + 0.114 * of_int b8) / 255.0)
      else if gray < 0.15 then 0.98
      else if gray < 0.4 then 0.75 + (gray - 0.15) * 0.8
      else if gray < 0.6 then 0.65 + (gray - 0.4) * 1.0
      else 0.5 + gray * 0.5)"

definition transform_cmyk ::
  "string \<Rightarrow> real \<Rightarrow> real \<Rightarrow> real \<Rightarrow> real \<Rightarrow> real \<times> real \<times> real \<times> real" where
  "transform_cmyk theme c m y k =
     (let r = (1 - c) * (1 - k);
          g = (1 - m) * (1 - k);
          b = (1 - y) * (1 - k)
      in case transform_rgb theme r g b of (new_r, new_g, new_b) \<Rightarrow>
        if new_r = 0 \<and> new_g = 0 \<and> new_b = 0 then (0, 0, 0, 1)
        else
          (let new_k = 1 - max new_r (max new_g new_b) in
           if new_k < 1 then
             ((1 - new_r - new_k) / (1 - new_k),
              (1 - new_g - new_k) / (1 - new_k),
              (1 - new_b - new_k) / (1 - new_k),
              new_k)
           else (0, 0, 0, new_k)))"

text \<open>The conversion \<open>R = (1-C)(1-K)\<close>, \<open>G = (1-M)(1-K)\<close>, \<open>B = (1-Y)(1-K)\<close> with which
  \<open>_transform_cmyk\<close> starts.\<close>

definition cmyk_to_rgb :: "real \<times> real \<times> real \<times> real \<Rightarrow> real \<times> real \<times> real" where
  "cmyk_to_rgb q = (case q of (c, m, y, k) \<Rightarrow> ((1 - c) * (1 - k), (1 - m) * (1 - k), (1 - y) * (1 - k)))"

subsection \<open>Auxiliary notions used in the statements\<close>

text \<open>A colour is light when each of its components lies between 0.45 and 1.\<close>

definition light :: "real \<times> real \<times> real \<Rightarrow> bool" where
  "light q = (case q of (r, g, b) \<Rightarrow>
     0.45 \<le> r \<and> r \<le> 1 \<and> 0.45 \<le> g \<and> g \<le> 1 \<and> 0.45 \<le> b \<and> b \<le> 1)"

text \<open>
  The value of \<open>hsv_to_rgb\<close> in the \<open>k\<close>-th sextant of the hue circle, at the fraction
  \<open>t\<close> of the sextant, for chroma \<open>c\<close> and offset \<open>m\<close>.
\<close>

definition sextant :: "nat \<Rightarrow> real \<Rightarrow> real \<Rightarrow> real \<Rightarrow> real \<times> real \<times> real" where
  "sextant k t c m =
     (if k = 0 then (c + m, c * t + m, m)
      else if k = 1 then (c * (1 - t) + m, c + m, m)
      else if k = 2 then (m, c + m, c * t + m)
      else if k = 3 then (m, c * (1 - t) + m, c + m)
      else if k = 4 then (c * t + m, m, c + m)
      else (c + m, m, c * (1 - t) + m))"

section \<open>The content-stream rewriter\<close>

text \<open>
  \<open>_transform_content_stream\<close> applies six regular-expression substitutions, one after
  the other, to the page content decoded as latin-1 text. A character is a \<open>char\<close> (one
  byte, one latin-1 code point).
\<close>

subsection \<open>Character classes of Python's \<open>re\<close> on latin-1 text\<close>

text \<open>\<open>\d\<close>: the decimal digits.\<close>

definition isdigit :: "char \<Rightarrow> bool" where
  "isdigit c = (48 \<le> (of_char c :: nat) \<and> (of_char c :: nat) \<le> 57)"

text \<open>\<open>\s\<close>: TAB, LF, VT, FF, CR, the separators 0x1C to 0x1F, SP, NEL and NBSP.\<close>

definition isspace :: "char \<Rightarrow> bool" where
  "isspace c = ((of_char c :: nat) \<in> {9, 10, 11, 12, 13, 28, 29, 30, 31, 32, 133, 160})"

text \<open>\<open>\w\<close>: the alphanumeric code points below 256 and the underscore.\<close>

definition isword :: "char \<Rightarrow> bool" where
  "isword c = (let n = (of_char c :: nat) in
     (48 \<le> n \<and> n \<le> 57) \<or> (65 \<le> n \<and> n \<le> 90) \<or> n = 95 \<or> (97 \<le> n \<and> n \<le> 122)
     \<or> n \<in> {170, 178, 179, 181, 185, 186, 188, 189, 190}
     \<or> (192 \<le> n \<and> n \<le> 214) \<or> (216 \<le> n \<and> n \<le> 246) \<or> 248 \<le> n)"

subsection \<open>Matching one pattern at one position\<close>

text \<open>
  Each pattern is a sequence of number groups, every group followed by \<open>\s+\<close>, then the
  operator letters, then (for \<open>g\<close>, \<open>G\<close>, \<open>k\<close>, \<open>K\<close>) the word boundary \<open>\b\<close>. A group
  matches digits and dots only and must be followed by white space, so at a given start
  position it can only be the whole text up to the next white-space character; greedy
  \<open>\s+\<close> must take the whole run of white space, since the next group or the operator
  letter cannot start with white space. So backtracking never finds a second way to match,
  and a match at a position is decided, and its extent given, by the functions below.
\<close>

text \<open>The group \<open>(\d+\.?\d*)\<close> matching a whole token.\<close>

definition is_num_a :: "string \<Rightarrow> bool" where
  "is_num_a tok =
     (case dropWhile isdigit tok of
        [] \<Rightarrow> takeWhile isdigit tok \<noteq> []
      | c # r \<Rightarrow> takeWhile isdigit tok \<noteq> [] \<and> c = CHR ''.'' \<and> list_all isdigit r)"

text \<open>The group \<open>(\d*\.?\d+)\<close> matching a whole token.\<close>

definition is_num_b :: "string \<Rightarrow> bool" where
  "is_num_b tok =
     (case dropWhile isdigit tok of
        [] \<Rightarrow> takeWhile isdigit tok \<noteq> []
      | c # r \<Rightarrow> c = CHR ''.'' \<and> r \<noteq> [] \<and> list_all isdigit r)"

text \<open>One group and the \<open>\s+\<close> after it: the group's text and the input left.\<close>

definition operand :: "(string \<Rightarrow> bool) \<Rightarrow> string \<Rightarrow> (string \<times> string) option" where
  "operand isnum s =
     (let tok = takeWhile (\<lambda>c. \<not> isspace c) s;
          rest = dropWhile (\<lambda>c. \<not> isspace c) s
      in if isnum tok \<and> rest \<noteq> [] then Some (tok, dropWhile isspace rest) else None)"

fun operands :: "(string \<Rightarrow> bool) \<Rightarrow> nat \<Rightarrow> string \<Rightarrow> (string list \<times> string) option" where
  "operands isnum 0 s = Some ([], s)"
| "operands isnum (Suc n) s =
     (case operand isnum s of
        None \<Rightarrow> None
      | Some (tok, rest) \<Rightarrow>
          (case operands isnum n rest of
             None \<Rightarrow> None
           | Some (toks, rest') \<Rightarrow> Some (tok # toks, rest')))"

text \<open>
  A whole pattern with \<open>n\<close> groups and the operator \<open>opr\<close>, with \<open>\b\<close> after it when \<open>wb\<close>
  holds: the groups (Python's \<open>match.group(1)\<close>, ...) and the length of the match.
\<close>

definition match_op ::
  "(string \<Rightarrow> bool) \<Rightarrow> nat \<Rightarrow> string \<Rightarrow> bool \<Rightarrow> string \<Rightarrow> (string list \<times> nat) option" where
  "match_op isnum n opr wb s =
     (case operands isnum n s of
        None \<Rightarrow> None
      | Some (toks, rest) \<Rightarrow>
          if take (length opr) rest = opr
             \<and> (case drop (length opr) rest of [] \<Rightarrow> True | c # r \<Rightarrow> \<not> (wb \<and> isword c))
          then Some (toks, length s - length rest + length opr)
          else None)"

subsection \<open>\<open>re.sub\<close>\<close>

text \<open>
  \<open>re.sub\<close> scans from left to right: where the pattern matches, the replacement is
  emitted and the scan resumes after the match; elsewhere the character is copied. The
  counter is the number of characters of the current match still to skip.
\<close>

fun re_sub ::
  "(string \<Rightarrow> (string list \<times> nat) option) \<Rightarrow> (string list \<Rightarrow> string) \<Rightarrow> nat \<Rightarrow> string \<Rightarrow> string" where
  "re_sub m repl k [] = []"
| "re_sub m repl (Suc k) (c # cs) = re_sub m repl k cs"
| "re_sub m repl 0 (c # cs) =
     (case m (c # cs) of
        None \<Rightarrow> c # re_sub m repl 0 cs
      | Some (toks, n) \<Rightarrow> repl toks @ re_sub m repl (n - 1) cs)"

subsection \<open>Reading and writing numbers\<close>

text \<open>
  The text of a group is a run of digits with at most one point, so \<open>float\<close> returns the
  number it denotes; as in the colour mapper, the float is a real number here, so a group
  too long for a finite float, which Python reads as \<open>inf\<close>, is outside the model.
\<close>

definition digits_val :: "string \<Rightarrow> nat" where
  "digits_val ds = foldl (\<lambda>n c. 10 * n + (of_char c - 48)) 0 ds"

text \<open>\<open>float(match.group(i))\<close> on the text of a group.\<close>

definition float_of :: "string \<Rightarrow> real" where
  "float_of tok =
     (let ip = takeWhile isdigit tok;
          fp = drop 1 (dropWhile isdigit tok)
      in real (digits_val ip) + real (digits_val fp) / 10 ^ length fp)"

definition round_half_even :: "real \<Rightarrow> int" where
  "round_half_even x =
     (let f = \<lfloor>x\<rfloor>; d = x - of_int f
      in if d < 1 / 2 then f else if 1 / 2 < d then f + 1 else if even f then f else f + 1)"

definition digit_char :: "nat \<Rightarrow> char" where
  "digit_char d =
     (if d = 0 then CHR ''0'' else if d = 1 then CHR ''1'' else if d = 2 then CHR ''2''
      else if d = 3 then CHR ''3'' else if d = 4 then CHR ''4'' else if d = 5 then CHR ''5''
      else if d = 6 then CHR ''6'' else if d = 7 then CHR ''7'' else if d = 8 then CHR ''8''
      else CHR ''9'')"

function dec :: "nat \<Rightarrow> string" where
  "dec n = (if n < 10 then [digit_char n] else dec (n div 10) @ [digit_char (n mod 10)])"
  by pat_completeness auto
termination
  by (relation "measure id") auto

declare dec.simps [simp del]

text \<open>The format \<open>:.4f\<close>: sign, integer part, point, four decimals.\<close>

definition fmt4 :: "real \<Rightarrow> string" where
  "fmt4 x =
     (let n = nat (round_half_even (\<bar>x\<bar> * 10000));
          fp = n mod 10000
      in (if x < 0 then ''-'' else '''') @ dec (n div 10000) @ ''.''
         @ [digit_char (fp div 1000), digit_char (fp div 100 mod 10),
            digit_char (fp div 10 mod 10), digit_char (fp mod 10)])"

subsection \<open>The replacement callbacks and the rewriter\<close>

text \<open>
  \<open>toks\<close> holds the groups of the match. The callbacks return the replacement text; what
  \<open>_replace_rgb\<close> prints about light and dark colours does not reach the content stream
  and is left out.
\<close>

definition replace_rgb :: "string \<Rightarrow> string \<Rightarrow> string list \<Rightarrow> string" where
  "replace_rgb theme opr toks =
     (case transform_rgb theme (float_of (toks ! 0)) (float_of (toks ! 1)) (float_of (toks ! 2)) of
        (new_r, new_g, new_b) \<Rightarrow>
          fmt4 new_r @ '' '' @ fmt4 new_g @ '' '' @ fmt4 new_b @ '' '' @ opr)"

definition replace_gray :: "string \<Rightarrow> string \<Rightarrow> string list \<Rightarrow> string" where
  "replace_gray theme opr toks =
     fmt4 (transform_grayscale theme (float_of (toks ! 0))) @ '' '' @ opr @ '' ''"

definition replace_cmyk :: "string \<Rightarrow> string \<Rightarrow> string list \<Rightarrow> string" where
  "replace_cmyk theme opr toks =
     (case transform_cmyk theme (float_of (toks ! 0)) (float_of (toks ! 1))
             (float_of (toks ! 2)) (float_of (toks ! 3)) of
        (new_c, new_m, new_y, new_k) \<Rightarrow>
          fmt4 new_c @ '' '' @ fmt4 new_m @ '' '' @ fmt4 new_y @ '' '' @ fmt4 new_k
          @ '' '' @ opr @ '' '')"

definition transform_content_stream :: "string \<Rightarrow> string \<Rightarrow> string" where
  "transform_content_stream theme content =
     (let c1 = re_sub (match_op is_num_b 3 ''rg'' False) (replace_rgb theme ''rg'') 0 content;
          c2 = re_sub (match_op is_num_b 3 ''RG'' False) (replace_rgb theme ''RG'') 0 c1;
          c3 = re_sub (match_op is_num_a 1 ''g'' True) (replace_gray theme ''g'') 0 c2;
          c4 = re_sub (match_op is_num_a 1 ''G'' True) (replace_gray theme ''G'') 0 c3;
          c5 = re_sub (match_op is_num_a 4 ''k'' True) (replace_cmyk theme ''k'') 0 c4;
          c6 = re_sub (match_op is_num_a 4 ''K'' True) (replace_cmyk theme ''K'') 0 c5
      in c6)"

subsection \<open>Notions used in the statements about the rewriter\<close>


text \<open>No white-space character of the text is directly followed by an operator letter.\<close>

fun no_op_after_space :: "string \<Rightarrow> bool" where
  "no_op_after_space (c # d # cs) =
     (\<not> (isspace c \<and> d \<in> set ''rgkRGK'') \<and> no_op_after_space (d # cs))"
| "no_op_after_space cs = True"

text \<open>
  A content stream that selects the colour space \<open>space\<close> with \<open>cs\<close> or \<open>CS\<close> and then sets
  a colour with \<open>sc\<close> or \<open>SC\<close>: \<open>/space cs o1 ... on sc\<close>.
\<close>

definition sc_stream :: "string \<Rightarrow> string \<Rightarrow> string list \<Rightarrow> string \<Rightarrow> string" where
  "sc_stream space csop nums scop =
     ''/'' @ space @ '' '' @ csop @ '' '' @ concat (map (\<lambda>t. t @ '' '') nums) @ scop"

section \<open>Pages\<close>

text \<open>
  \<open>_process_page\<close> works on a page object of the PDF library. The model keeps what the
  method reads and writes: the \<open>/MediaBox\<close> (four numbers), the \<open>/Contents\<close> entry, which
  may be absent, and the form XObjects registered in the page's resources. A content stream
  is its decoded text when \<open>read_bytes\<close> returns and an exception when \<open>read_bytes\<close>
  raises; an object without \<open>read_bytes\<close> is \<open>NonStream\<close>. Decoding and encoding as latin-1
  are one-to-one on bytes, so a byte string and its text are the same \<open>string\<close>.
\<close>

datatype error = Exception string

datatype pdf_object = Stream "error + string" | NonStream

datatype page_contents = Single pdf_object | Array "pdf_object list"

type_synonym rectangle = "real \<times> real \<times> real \<times> real"

text \<open>The one-page background document: its fill colour, width and height.\<close>

type_synonym background = "(real \<times> real \<times> real) \<times> real \<times> real"

record page =
  MediaBox :: rectangle
  Contents :: "page_contents option"
  XObjects :: "background list"

text \<open>\<open>_create_background_pdf\<close>: a page of the given size filled with the theme colour.\<close>

definition create_background_pdf :: "string \<Rightarrow> real \<Rightarrow> real \<Rightarrow> background" where
  "create_background_pdf theme width height = (bg_rgb theme, width, height)"

text \<open>
  The loops over the streams of \<open>/Contents\<close>: objects without \<open>read_bytes\<close> are skipped,
  and the first \<open>read_bytes\<close> that raises ends the reading with its exception.
\<close>

fun read_streams :: "pdf_object list \<Rightarrow> error + string list" where
  "read_streams [] = Inr []"
| "read_streams (NonStream # xs) = read_streams xs"
| "read_streams (Stream (Inl e) # xs) = Inl e"
| "read_streams (Stream (Inr content_str) # xs) =
     (case read_streams xs of
        Inl e \<Rightarrow> Inl e
      | Inr all_content \<Rightarrow> Inr (content_str # all_content))"

fun read_contents :: "page_contents \<Rightarrow> error + string list" where
  "read_contents (Array xs) = read_streams xs"
| "read_contents (Single x) = read_streams [x]"

text \<open>\<open>'\n'.join(all_content)\<close>\<close>

fun join_lines :: "string list \<Rightarrow> string" where
  "join_lines [] = []"
| "join_lines [x] = x"
| "join_lines (x # y # ys) = x @ CHR 0x0A # join_lines (y # ys)"

text \<open>
  The page after lines 69 to 82 of \<open>_process_page\<close>: the background of the size of the
  \<open>/MediaBox\<close> is made and handed to \<open>page.add_underlay\<close> with the rectangle
  \<open>(0, 0, width, height)\<close>. \<open>add_underlay\<close> belongs to the PDF library; it is a parameter
  of the model, a function from the background, the rectangle and the page to the page it
  leaves.
\<close>

definition underlaid ::
  "(background \<Rightarrow> rectangle \<Rightarrow> page \<Rightarrow> page) \<Rightarrow> string \<Rightarrow> page \<Rightarrow> page" where
  "underlaid add_underlay theme page =
     (case MediaBox page of
        (x0, y0, x1, y1) \<Rightarrow>
          (let width = x1 - x0; height = y1 - y0
           in add_underlay (create_background_pdf theme width height) (0, 0, width, height) page))"

text \<open>
  The body of the \<open>try\<close> block: the exception raised, if any, and the page at that moment.
\<close>

definition process_page_try ::
  "(background \<Rightarrow> rectangle \<Rightarrow> page \<Rightarrow> page) \<Rightarrow> string \<Rightarrow> page \<Rightarrow> (error + unit) \<times> page" where
  "process_page_try add_underlay theme page =
     (let page1 = underlaid add_underlay theme page
      in case Contents page1 of
           None \<Rightarrow> (Inr (), page1)
         | Some contents \<Rightarrow>
             (case read_contents contents of
                Inl e \<Rightarrow> (Inl e, page1)
              | Inr all_content \<Rightarrow>
                  (let combined_content = join_lines all_content;
                       modified_content = transform_content_stream theme combined_content
                   in (Inr (), page1\<lparr>Contents := Some (Single (Stream (Inr modified_content)))\<rparr>))))"

text \<open>
  \<open>_process_page\<close>: \<open>except Exception\<close> prints a warning and returns, so the page stays as
  it was when the exception was raised.
\<close>

definition process_page ::
  "(background \<Rightarrow> rectangle \<Rightarrow> page \<Rightarrow> page) \<Rightarrow> string \<Rightarrow> page \<Rightarrow> page" where
  "process_page add_underlay theme page = snd (process_page_try add_underlay theme page)"

text \<open>
  The loop of \<open>process_pdf\<close> over the pages of the document, in order. Opening the
  document before the loop and saving it afterwards belong to the PDF library.
\<close>

definition process_pdf ::
  "(background \<Rightarrow> rectangle \<Rightarrow> page \<Rightarrow> page) \<Rightarrow> string \<Rightarrow> page list \<Rightarrow> page list" where
  "process_pdf add_underlay theme pages = map (process_page add_underlay theme) pages"


definition prepend_underlay :: "background \<Rightarrow> rectangle \<Rightarrow> page \<Rightarrow> page" where
  "prepend_underlay bg rect page =
     page\<lparr>XObjects := bg # XObjects page,
          Contents := Some (Array (Stream (Inr ''q /Fx0 Do Q'') #
            (case Contents page of
               None \<Rightarrow> []
             | Some (Single x) \<Rightarrow> [x]
             | Some (Array xs) \<Rightarrow> xs)))\<rparr>"

text \<open>Two concrete pages: one whose content stream cannot be read, one with text.\<close>

definition unreadable_page :: page where
  "unreadable_page =
     \<lparr>MediaBox = (0, 0, 612, 792),
      Contents = Some (Single (Stream (Inl (Exception ''unfilterable stream'')))),
      XObjects = []\<rparr>"

definition text_page :: page where
  "text_page =
     \<lparr>MediaBox = (0, 0, 612, 792),
      Contents = Some (Single (Stream (Inr ''BT ET''))),
      XObjects = []\<rparr>"

section \<open>Properties of the colour mapper\<close>

subsection \<open>Evaluation lemmas\<close>

lemma dom_themes:
  "dom themes = {''classic'', ''claude'', ''chatgpt'', ''sepia'', ''midnight'', ''forest''}"
  by (auto simp: themes_def split: if_splits)

lemma bg_classic: "bg_rgb ''classic'' = (0, 0, 0)"
  and bg_claude: "bg_rgb ''claude'' = (42 / 255, 37 / 255, 34 / 255)"
  and bg_chatgpt: "bg_rgb ''chatgpt'' = (52 / 255, 53 / 255, 65 / 255)"
  and bg_sepia: "bg_rgb ''sepia'' = (40 / 255, 35 / 255, 25 / 255)"
  and bg_midnight: "bg_rgb ''midnight'' = (25 / 255, 30 / 255, 45 / 255)"
  and bg_forest: "bg_rgb ''forest'' = (25 / 255, 35 / 255, 30 / 255)"
  by (simp_all add: bg_rgb_def bg_color_def themes_def)

lemmas eval_rgb =
  transform_rgb_def rgb_to_hsv_def hsv_to_rgb_def fmod_def Let_def clamp01_def light_def

lemma light_classic: "light (transform_rgb ''classic'' 0 0 0)"
  by (simp add: eval_rgb)

lemma light_claude: "light (transform_rgb ''claude'' (42 / 255) (37 / 255) (34 / 255))"
  by (simp add: eval_rgb)

lemma light_chatgpt: "light (transform_rgb ''chatgpt'' (52 / 255) (53 / 255) (65 / 255))"
  by (simp add: eval_rgb)

lemma light_sepia: "light (transform_rgb ''sepia'' (40 / 255) (35 / 255) (25 / 255))"
  by (simp add: eval_rgb)

lemma light_midnight: "light (transform_rgb ''midnight'' (25 / 255) (30 / 255) (45 / 255))"
  by (simp add: eval_rgb)

lemma light_forest: "light (transform_rgb ''forest'' (25 / 255) (35 / 255) (30 / 255))"
  by (simp add: eval_rgb)

lemma white_to_bg: "transform_rgb theme 1 1 1 = bg_rgb theme"
  by (simp add: transform_rgb_def)

subsection \<open>C1: the theme background under the RGB mapper\<close>

text \<open>
  C1 as stated (the mapper returns the theme background when given the theme background,
  up to 1/255) fails: the \<open>classic\<close> background is black, which the near-black band sends
  to (0.98, 0.98, 0.98).
\<close>

theorem theme_bg_fixed_counterexample:
  "bg_rgb ''classic'' = (0, 0, 0) \<and> transform_rgb ''classic'' 0 0 0 = (0.98, 0.98, 0.98)"
  by (simp add: transform_rgb_def rgb_to_hsv_def bg_rgb_def bg_color_def themes_def Let_def)

text \<open>
  C1, amended: for every built-in theme the RGB mapper sends white to the theme background
  (components divided by 255), and sends the theme background itself, which is dark, to a
  light colour: each component of the result lies in [0.45, 1].
\<close>

theorem theme_bg_maps_to_light:
  assumes "theme \<in> dom themes"
  shows "transform_rgb theme 1 1 1 = bg_rgb theme
     \<and> (case bg_rgb theme of (r, g, b) \<Rightarrow> light (transform_rgb theme r g b))"
proof -
  from assms have "theme = ''classic'' \<or> theme = ''claude'' \<or> theme = ''chatgpt''
      \<or> theme = ''sepia'' \<or> theme = ''midnight'' \<or> theme = ''forest''"
    by (simp only: dom_themes insert_iff empty_iff simp_thms)
  then have "case bg_rgb theme of (r, g, b) \<Rightarrow> light (transform_rgb theme r g b)"
  proof (elim disjE)
    assume "theme = ''classic''"
    then show ?thesis by (simp only: bg_classic prod.case light_classic)
  next
    assume "theme = ''claude''"
    then show ?thesis by (simp only: bg_claude prod.case light_claude)
  next
    assume "theme = ''chatgpt''"
    then show ?thesis by (simp only: bg_chatgpt prod.case light_chatgpt)
  next
    assume "theme = ''sepia''"
    then show ?thesis by (simp only: bg_sepia prod.case light_sepia)
  next
    assume "theme = ''midnight''"
    then show ?thesis by (simp only: bg_midnight prod.case light_midnight)
  next
    assume "theme = ''forest''"
    then show ?thesis by (simp only: bg_forest prod.case light_forest)
  qed
  then show ?thesis by (simp add: white_to_bg)
qed

theorem theme_bg_maps_to_light_witness:
  "''sepia'' \<in> dom themes
   \<and> transform_rgb ''sepia'' 1 1 1 = (40 / 255, 35 / 255, 25 / 255)
   \<and> light (transform_rgb ''sepia'' (40 / 255) (35 / 255) (25 / 255))"
  using theme_bg_maps_to_light [of "''sepia''"]
  by (simp add: dom_themes bg_sepia)

subsection \<open>C2: near-white collapse\<close>

text \<open>
  C2: every RGB input in the unit cube whose luminance 0.299 r + 0.587 g + 0.114 b is
  strictly greater than 0.93 is mapped to exactly the theme background, normalised to [0,1].
\<close>

theorem near_white_collapse:
  assumes "0 \<le> r" "r \<le> 1" "0 \<le> g" "g \<le> 1" "0 \<le> b" "b \<le> 1"
    and "0.299 * r + 0.587 * g + 0.114 * b > 0.93"
  shows "transform_rgb theme r g b = bg_rgb theme"
  using assms(7) by (simp add: transform_rgb_def)

theorem near_white_collapse_witness:
  "transform_rgb ''claude'' 1 1 1 = (42 / 255, 37 / 255, 34 / 255)"
  using near_white_collapse [of 1 1 1 "''claude''"]
  by (simp add: bg_claude)

subsection \<open>C5: range of the RGB mapper\<close>

text \<open>
  C5 (every output component lies in [0,1]) is what the near-black coloured band does by
  clamping, but the dark band returns the result of \<open>hsv_to_rgb\<close> unclamped: pure red has
  luminance 0.299 and value 1, so its new value is 0.75 + 0.85 * 0.8 = 1.43.
\<close>

theorem dark_band_red_out_of_range:
  "transform_rgb ''classic'' 1 0 0 = (1.43, 0.2145, 0.2145)"
  by (simp add: transform_rgb_def rgb_to_hsv_def hsv_to_rgb_def fmod_def Let_def)

subsection \<open>C8: gray 0.9 under the claude theme\<close>

text \<open>
  C8 as stated (gray 0.9 under \<open>claude\<close> is mapped to the luminance of the theme
  background, about 0.1556) fails: 0.9 is not above the threshold 0.93, and the result is
  neither the luminance of (42,37,34)/255 nor near 0.1556.
\<close>

theorem gray_09_claude_counterexample:
  "transform_grayscale ''claude'' 0.9 \<noteq> (0.299 * 42 + 0.587 * 37 + 0.114 * 34) / 255
   \<and> \<bar>transform_grayscale ''claude'' 0.9 - 0.1556\<bar> > 0.79"
  by (simp add: transform_grayscale_def)

lemma gray_low_bands:
  assumes "\<not> 0.93 < gray"
  shows "0.65 \<le> transform_grayscale theme gray"
  using assms by (simp add: transform_grayscale_def field_simps)

text \<open>
  C8, amended: for the gray input 0.9 under the \<open>claude\<close> theme the gray mapper returns
  0.95 = 0.5 + 0.9 * 0.5, the value of the last band, because 0.9 is not greater than 0.93;
  a gray input is mapped to the luminance of the theme background (42,37,34)/255 exactly
  when it is greater than 0.93.
\<close>

theorem gray_09_claude:
  "transform_grayscale ''claude'' 0.9 = 0.95
   \<and> (transform_grayscale ''claude'' gray = (0.299 * 42 + 0.587 * 37 + 0.114 * 34) / 255
        \<longleftrightarrow> 0.93 < gray)"
proof -
  have a: "transform_grayscale ''claude'' 0.9 = 0.95"
    by (simp add: transform_grayscale_def)
  have b: "transform_grayscale ''claude'' gray = (0.299 * 42 + 0.587 * 37 + 0.114 * 34) / 255"
    if "0.93 < gray"
    using that by (simp add: transform_grayscale_def bg_color_def themes_def)
  have c: "transform_grayscale ''claude'' gray \<noteq> (0.299 * 42 + 0.587 * 37 + 0.114 * 34) / 255"
    if "\<not> 0.93 < gray"
    using gray_low_bands [OF that, of "''claude''"] by simp
  from a b c show ?thesis by blast
qed

theorem gray_09_claude_witness:
  "transform_grayscale ''claude'' 0.94 = (0.299 * 42 + 0.587 * 37 + 0.114 * 34) / 255
   \<and> transform_grayscale ''claude'' 0.92 \<noteq> (0.299 * 42 + 0.587 * 37 + 0.114 * 34) / 255"
  using gray_09_claude [of "0.94"] gray_09_claude [of "0.92"] by simp

subsection \<open>C9: HSV round trip\<close>

text \<open>Float remainders in the ranges that the two conversions reach.\<close>

lemma fmod_shift:
  assumes y: "0 < y" and lo: "of_int n * y \<le> x" and hi: "x < (of_int n + 1) * y"
  shows "fmod x y = x - of_int n * y"
proof -
  have "\<lfloor>x / y\<rfloor> = n"
  proof (rule floor_unique)
    show "of_int n \<le> x / y" using y lo by (simp add: pos_le_divide_eq)
    show "x / y < of_int n + 1" using y hi by (simp add: pos_divide_less_eq)
  qed
  then show ?thesis by (simp add: fmod_def mult.commute)
qed

lemma fmod_0: "0 < y \<Longrightarrow> 0 \<le> x \<Longrightarrow> x < y \<Longrightarrow> fmod x y = x"
  using fmod_shift [of y 0 x] by simp

lemma fmod_1: "0 < y \<Longrightarrow> y \<le> x \<Longrightarrow> x < 2 * y \<Longrightarrow> fmod x y = x - y"
  using fmod_shift [of y 1 x] by simp

lemma fmod_2: "0 < y \<Longrightarrow> 2 * y \<le> x \<Longrightarrow> x < 3 * y \<Longrightarrow> fmod x y = x - 2 * y"
  using fmod_shift [of y 2 x] by simp

lemma hsv_to_rgb_sextant:
  assumes "k < 6" "0 \<le> t" "t < 1"
  shows "hsv_to_rgb ((60 * real k + 60 * t) / 360) s v = sextant k t (v * s) (v - v * s)"
proof -
  have k: "k = 0 \<or> k = 1 \<or> k = 2 \<or> k = 3 \<or> k = 4 \<or> k = 5" using assms(1) by arith
  have f0: "fmod t 2 = t" using assms by (intro fmod_0) auto
  have f1: "fmod (1 + t) 2 = 1 + t" using assms by (intro fmod_0) auto
  have f2: "fmod (2 + t) 2 = t" using fmod_1 [of 2 "2 + t"] assms by simp
  have f3: "fmod (3 + t) 2 = 1 + t" using fmod_1 [of 2 "3 + t"] assms by simp
  have f4: "fmod (4 + t) 2 = t" using fmod_2 [of 2 "4 + t"] assms by simp
  have f5: "fmod (5 + t) 2 = 1 + t" using fmod_2 [of 2 "5 + t"] assms by simp
  from k show ?thesis
    using assms(2,3) f0 f1 f2 f3 f4 f5
    by (elim disjE) (simp_all add: hsv_to_rgb_def sextant_def Let_def add_divide_distrib algebra_simps)
qed


lemma hsv_of_hue:
  assumes "k < 6" "0 \<le> t" "t < 1" "M \<noteq> 0"
    and "rgb_to_hsv r g b = (h / 360, d / M, M)"
    and "h = 60 * real k + 60 * t"
  shows "(case rgb_to_hsv r g b of (h, s, v) \<Rightarrow> hsv_to_rgb h s v) = sextant k t d (M - d)"
  using assms(4) by (simp add: assms(5,6) hsv_to_rgb_sextant [OF assms(1-3)])

lemma rgb_to_hsv_max_r:
  assumes "max r (max g b) = r" "min r (min g b) = m" "r - m \<noteq> 0" "r \<noteq> 0"
  shows "rgb_to_hsv r g b = (fmod (60 * ((g - b) / (r - m)) + 360) 360 / 360, (r - m) / r, r)"
  by (simp only: rgb_to_hsv_def Let_def assms if_False if_True refl)

lemma rgb_to_hsv_max_g:
  assumes "max r (max g b) = g" "min r (min g b) = m" "g - m \<noteq> 0" "g \<noteq> 0" "g \<noteq> r"
  shows "rgb_to_hsv r g b = (fmod (60 * ((b - r) / (g - m)) + 120) 360 / 360, (g - m) / g, g)"
  by (simp only: rgb_to_hsv_def Let_def assms if_False if_True refl)

lemma rgb_to_hsv_max_b:
  assumes "max r (max g b) = b" "min r (min g b) = m" "b - m \<noteq> 0" "b \<noteq> 0" "b \<noteq> r" "b \<noteq> g"
  shows "rgb_to_hsv r g b = (fmod (60 * ((r - g) / (b - m)) + 240) 360 / 360, (b - m) / b, b)"
  by (simp only: rgb_to_hsv_def Let_def assms if_False if_True refl)

lemma fmod_360_wrap:
  assumes "0 \<le> t" "t \<le> 1"
  shows "fmod (60 * t + 360) 360 = 60 * t"
proof -
  have "360 \<le> 60 * t + 360" "60 * t + 360 < 2 * 360" using assms by auto
  from fmod_1 [OF _ this] show ?thesis by simp
qed

lemma fmod_360_id:
  assumes "0 \<le> x" "x < 360"
  shows "fmod x 360 = x"
  using fmod_0 [of 360 x] assms by simp

lemma rt_r_up:
  assumes "0 \<le> b" "b \<le> g" "g < r"
  shows "(case rgb_to_hsv r g b of (h, s, v) \<Rightarrow> hsv_to_rgb h s v) = (r, g, b)"
proof -
  define t where "t = (g - b) / (r - b)"
  have d: "0 < r - b" using assms by simp
  have t: "0 \<le> t" "t < 1" using assms d by (simp_all add: t_def divide_simps)
  have dt: "(r - b) * t = g - b" using d by (simp add: t_def)
  have mx: "max r (max g b) = r" and mn: "min r (min g b) = b" using assms by auto
  have "rgb_to_hsv r g b = (fmod (60 * t + 360) 360 / 360, (r - b) / r, r)"
    unfolding t_def using rgb_to_hsv_max_r [OF mx mn] assms by simp
  then have "rgb_to_hsv r g b = ((60 * t) / 360, (r - b) / r, r)"
    using fmod_360_wrap [of t] t by simp
  from hsv_of_hue [OF _ t _ this, of 0] assms dt show ?thesis
    by (simp add: sextant_def)
qed

lemma rt_r_top:
  assumes "0 \<le> b" "b < r"
  shows "(case rgb_to_hsv r r b of (h, s, v) \<Rightarrow> hsv_to_rgb h s v) = (r, r, b)"
proof -
  have mx: "max r (max r b) = r" and mn: "min r (min r b) = b" using assms by auto
  have "rgb_to_hsv r r b = (fmod (60 * 1 + 360) 360 / 360, (r - b) / r, r)"
    using rgb_to_hsv_max_r [OF mx mn] assms by simp
  then have "rgb_to_hsv r r b = ((60 * real 1 + 60 * 0) / 360, (r - b) / r, r)"
    using fmod_360_wrap [of 1] by simp
  from hsv_of_hue [OF _ _ _ _ this refl] assms show ?thesis
    by (simp add: sextant_def)
qed

lemma rt_r_down:
  assumes "0 \<le> g" "g < b" "b \<le> r"
  shows "(case rgb_to_hsv r g b of (h, s, v) \<Rightarrow> hsv_to_rgb h s v) = (r, g, b)"
proof -
  define t where "t = 1 + (g - b) / (r - g)"
  have d: "0 < r - g" using assms by simp
  have t: "0 \<le> t" "t < 1" using assms d by (simp_all add: t_def divide_simps)
  have dt: "(r - g) * t = r - b" using d by (simp add: t_def distrib_left)
  have mx: "max r (max g b) = r" and mn: "min r (min g b) = g" using assms by auto
  have raw: "60 * ((g - b) / (r - g)) + 360 = 60 * real 5 + 60 * t"
    by (simp add: t_def)
  have "rgb_to_hsv r g b = (fmod (60 * real 5 + 60 * t) 360 / 360, (r - g) / r, r)"
    using rgb_to_hsv_max_r [OF mx mn] assms unfolding raw by simp
  moreover have "fmod (60 * real 5 + 60 * t) 360 = 60 * real 5 + 60 * t"
    using t by (intro fmod_360_id) auto
  ultimately have "rgb_to_hsv r g b = ((60 * real 5 + 60 * t) / 360, (r - g) / r, r)"
    by simp
  from hsv_of_hue [OF _ t _ this refl] assms dt show ?thesis
    by (simp add: sextant_def algebra_simps)
qed

lemma rt_g_up:
  assumes "0 \<le> r" "r \<le> b" "b < g"
  shows "(case rgb_to_hsv r g b of (h, s, v) \<Rightarrow> hsv_to_rgb h s v) = (r, g, b)"
proof -
  define t where "t = (b - r) / (g - r)"
  have d: "0 < g - r" using assms by simp
  have t: "0 \<le> t" "t < 1" using assms d by (simp_all add: t_def divide_simps)
  have dt: "(g - r) * t = b - r" using d by (simp add: t_def)
  have mx: "max r (max g b) = g" and mn: "min r (min g b) = r" using assms by auto
  have raw: "60 * ((b - r) / (g - r)) + 120 = 60 * real 2 + 60 * t"
    by (simp add: t_def)
  have "rgb_to_hsv r g b = (fmod (60 * real 2 + 60 * t) 360 / 360, (g - r) / g, g)"
    using rgb_to_hsv_max_g [OF mx mn] assms unfolding raw by simp
  moreover have "fmod (60 * real 2 + 60 * t) 360 = 60 * real 2 + 60 * t"
    using t by (intro fmod_360_id) auto
  ultimately have "rgb_to_hsv r g b = ((60 * real 2 + 60 * t) / 360, (g - r) / g, g)"
    by simp
  from hsv_of_hue [OF _ t _ this refl] assms dt show ?thesis
    by (simp add: sextant_def algebra_simps)
qed

lemma rt_g_top:
  assumes "0 \<le> r" "r < g"
  shows "(case rgb_to_hsv r g g of (h, s, v) \<Rightarrow> hsv_to_rgb h s v) = (r, g, g)"
proof -
  have mx: "max r (max g g) = g" and mn: "min r (min g g) = r" using assms by auto
  have "rgb_to_hsv r g g = (fmod (60 * 1 + 120) 360 / 360, (g - r) / g, g)"
    using rgb_to_hsv_max_g [OF mx mn] assms by simp
  moreover have "fmod (60 * 1 + 120) 360 = 60 * real 3 + 60 * 0"
    using fmod_360_id [of 180] by simp
  ultimately have "rgb_to_hsv r g g = ((60 * real 3 + 60 * 0) / 360, (g - r) / g, g)"
    by simp
  from hsv_of_hue [OF _ _ _ _ this refl] assms show ?thesis
    by (simp add: sextant_def)
qed

lemma rt_g_down:
  assumes "0 \<le> b" "b < r" "r < g"
  shows "(case rgb_to_hsv r g b of (h, s, v) \<Rightarrow> hsv_to_rgb h s v) = (r, g, b)"
proof -
  define t where "t = 1 + (b - r) / (g - b)"
  have d: "0 < g - b" using assms by simp
  have t: "0 \<le> t" "t < 1" using assms d by (simp_all add: t_def divide_simps)
  have dt: "(g - b) * t = g - r" using d by (simp add: t_def distrib_left)
  have mx: "max r (max g b) = g" and mn: "min r (min g b) = b" using assms by auto
  have raw: "60 * ((b - r) / (g - b)) + 120 = 60 * real 1 + 60 * t"
    by (simp add: t_def)
  have "rgb_to_hsv r g b = (fmod (60 * real 1 + 60 * t) 360 / 360, (g - b) / g, g)"
    using rgb_to_hsv_max_g [OF mx mn] assms unfolding raw by simp
  moreover have "fmod (60 * real 1 + 60 * t) 360 = 60 * real 1 + 60 * t"
    using t by (intro fmod_360_id) auto
  ultimately have "rgb_to_hsv r g b = ((60 * real 1 + 60 * t) / 360, (g - b) / g, g)"
    by simp
  from hsv_of_hue [OF _ t _ this refl] assms dt show ?thesis
    by (simp add: sextant_def algebra_simps)
qed

lemma rt_b_up:
  assumes "0 \<le> g" "g \<le> r" "r < b"
  shows "(case rgb_to_hsv r g b of (h, s, v) \<Rightarrow> hsv_to_rgb h s v) = (r, g, b)"
proof -
  define t where "t = (r - g) / (b - g)"
  have d: "0 < b - g" using assms by simp
  have t: "0 \<le> t" "t < 1" using assms d by (simp_all add: t_def divide_simps)
  have dt: "(b - g) * t = r - g" using d by (simp add: t_def)
  have mx: "max r (max g b) = b" and mn: "min r (min g b) = g" using assms by auto
  have raw: "60 * ((r - g) / (b - g)) + 240 = 60 * real 4 + 60 * t"
    by (simp add: t_def)
  have "rgb_to_hsv r g b = (fmod (60 * real 4 + 60 * t) 360 / 360, (b - g) / b, b)"
    using rgb_to_hsv_max_b [OF mx mn] assms unfolding raw by simp
  moreover have "fmod (60 * real 4 + 60 * t) 360 = 60 * real 4 + 60 * t"
    using t by (intro fmod_360_id) auto
  ultimately have "rgb_to_hsv r g b = ((60 * real 4 + 60 * t) / 360, (b - g) / b, b)"
    by simp
  from hsv_of_hue [OF _ t _ this refl] assms dt show ?thesis
    by (simp add: sextant_def algebra_simps)
qed

lemma rt_b_down:
  assumes "0 \<le> r" "r < g" "g < b"
  shows "(case rgb_to_hsv r g b of (h, s, v) \<Rightarrow> hsv_to_rgb h s v) = (r, g, b)"
proof -
  define t where "t = 1 + (r - g) / (b - r)"
  have d: "0 < b - r" using assms by simp
  have t: "0 \<le> t" "t < 1" using assms d by (simp_all add: t_def divide_simps)
  have dt: "(b - r) * t = b - g" using d by (simp add: t_def distrib_left)
  have mx: "max r (max g b) = b" and mn: "min r (min g b) = r" using assms by auto
  have raw: "60 * ((r - g) / (b - r)) + 240 = 60 * real 3 + 60 * t"
    by (simp add: t_def)
  have "rgb_to_hsv r g b = (fmod (60 * real 3 + 60 * t) 360 / 360, (b - r) / b, b)"
    using rgb_to_hsv_max_b [OF mx mn] assms unfolding raw by simp
  moreover have "fmod (60 * real 3 + 60 * t) 360 = 60 * real 3 + 60 * t"
    using t by (intro fmod_360_id) auto
  ultimately have "rgb_to_hsv r g b = ((60 * real 3 + 60 * t) / 360, (b - r) / b, b)"
    by simp
  from hsv_of_hue [OF _ t _ this refl] assms dt show ?thesis
    by (simp add: sextant_def algebra_simps)
qed

lemma rt_gray:
  "(case rgb_to_hsv r r r of (h, s, v) \<Rightarrow> hsv_to_rgb h s v) = (r, r, r)"
  by (simp add: rgb_to_hsv_def hsv_to_rgb_def Let_def)

text \<open>
  C9: for every RGB triple in the unit cube, converting to HSV with \<open>rgb_to_hsv\<close> and back
  with \<open>hsv_to_rgb\<close> returns the original triple (exactly, over the reals).
\<close>

theorem hsv_roundtrip:
  assumes "0 \<le> r" "r \<le> 1" "0 \<le> g" "g \<le> 1" "0 \<le> b" "b \<le> 1"
  shows "(case rgb_to_hsv r g b of (h, s, v) \<Rightarrow> hsv_to_rgb h s v) = (r, g, b)"
proof -
  consider "r = g \<and> g = b" | "b \<le> g \<and> g < r" | "g = r \<and> b < r" | "g < b \<and> b \<le> r"
    | "r \<le> b \<and> b < g" | "b = g \<and> r < g" | "b < r \<and> r < g"
    | "g \<le> r \<and> r < b" | "r < g \<and> g < b"
    by linarith
  then show ?thesis
  proof cases
    case 1 then show ?thesis using rt_gray [of r] by simp
  next
    case 2 then show ?thesis using rt_r_up assms by simp
  next
    case 3 then show ?thesis using rt_r_top [of b r] assms by simp
  next
    case 4 then show ?thesis using rt_r_down assms by simp
  next
    case 5 then show ?thesis using rt_g_up assms by simp
  next
    case 6 then show ?thesis using rt_g_top [of r g] assms by simp
  next
    case 7 then show ?thesis using rt_g_down assms by simp
  next
    case 8 then show ?thesis using rt_b_up assms by simp
  next
    case 9 then show ?thesis using rt_b_down assms by simp
  qed
qed

theorem hsv_roundtrip_witness:
  "(case rgb_to_hsv 0.2 0.5 0.8 of (h, s, v) \<Rightarrow> hsv_to_rgb h s v) = (0.2, 0.5, 0.8)"
  using hsv_roundtrip [of "0.2" "0.5" "0.8"] by simp

subsection \<open>C4: CMYK round trip\<close>

text \<open>
  Whatever the hue, one component of the result of \<open>hsv_to_rgb\<close> is the value \<open>v\<close>
  itself; so the RGB mapper returns either black or a colour with a positive maximum.
\<close>

lemma hsv_to_rgb_has_v:
  "case hsv_to_rgb h s v of (R, G, B) \<Rightarrow> R = v \<or> G = v \<or> B = v"
  by (simp add: hsv_to_rgb_def Let_def)

lemma hsv_to_rgb_max_pos:
  assumes "0 < v" "hsv_to_rgb h s v = (R, G, B)"
  shows "0 < max R (max G B)"
  using hsv_to_rgb_has_v [where h = h and s = s and v = v] assms by auto

lemma bg_rgb_zero_or_pos:
  assumes "bg_rgb theme = (R, G, B)"
  shows "(R = 0 \<and> G = 0 \<and> B = 0) \<or> 0 < max R (max G B)"
  using assms by (auto simp: bg_rgb_def bg_color_def themes_def split: option.splits if_splits)

lemma rgb_to_hsv_value: "rgb_to_hsv r g b = (h, s, v) \<Longrightarrow> v = max r (max g b)"
  by (auto simp: rgb_to_hsv_def Let_def)

lemma transform_rgb_zero_or_pos:
  assumes "0 \<le> r" "0 \<le> g" "0 \<le> b" "transform_rgb theme r g b = (R, G, B)"
  shows "(R = 0 \<and> G = 0 \<and> B = 0) \<or> 0 < max R (max G B)"
proof -
  obtain h s v where hsv: "rgb_to_hsv r g b = (h, s, v)" by (cases "rgb_to_hsv r g b")
  then have v: "0 \<le> v" using rgb_to_hsv_value assms by fastforce
  let ?Y = "0.299 * r + 0.587 * g + 0.114 * b"
  consider (white) "?Y > 0.93" | (black) "\<not> ?Y > 0.93" "?Y < 0.15" "s < 0.3"
    | (blackc) "\<not> ?Y > 0.93" "?Y < 0.15" "\<not> s < 0.3"
    | (dark) "\<not> ?Y > 0.93" "\<not> ?Y < 0.15" "?Y < 0.4"
    | (medium) "\<not> ?Y > 0.93" "\<not> ?Y < 0.15" "\<not> ?Y < 0.4" "?Y < 0.6"
    | (other) "\<not> ?Y > 0.93" "\<not> ?Y < 0.15" "\<not> ?Y < 0.4" "\<not> ?Y < 0.6"
    by linarith
  then show ?thesis
  proof cases
    case white
    then have "bg_rgb theme = (R, G, B)" using assms(4) by (simp add: transform_rgb_def)
    then show ?thesis by (rule bg_rgb_zero_or_pos)
  next
    case black
    then have "(R, G, B) = (0.98, 0.98, 0.98)"
      using assms(4) hsv by (simp add: transform_rgb_def)
    then show ?thesis by simp
  next
    case blackc
    obtain R' G' B' where
      h: "hsv_to_rgb h (min (s * 1.1) 1.0) (0.65 + (v / 0.15) * 0.2) = (R', G', B')"
      by (cases "hsv_to_rgb h (min (s * 1.1) 1.0) (0.65 + (v / 0.15) * 0.2)")
    have "0 < 0.65 + (v / 0.15) * 0.2" using v by (intro add_pos_nonneg) auto
    from hsv_to_rgb_max_pos [OF this h] have "0 < max R' (max G' B')" .
    moreover have "(R, G, B) = (clamp01 R', clamp01 G', clamp01 B')"
      using blackc assms(4) hsv h by (simp add: transform_rgb_def)
    ultimately show ?thesis by (auto simp: clamp01_def max_def min_def split: if_splits)
  next
    case dark
    then have h: "hsv_to_rgb h (s * 0.85) (0.75 + (v - 0.15) * 0.8) = (R, G, B)"
      using assms(4) hsv by (simp add: transform_rgb_def)
    have "0 < 0.75 + (v - 0.15) * 0.8" using v by (simp add: field_simps)
    from hsv_to_rgb_max_pos [OF this h] show ?thesis by simp
  next
    case medium
    then have h: "hsv_to_rgb h (s * 0.9) (0.65 + (v - 0.4) * 1.0) = (R, G, B)"
      using assms(4) hsv by (simp add: transform_rgb_def)
    have "0 < 0.65 + (v - 0.4) * 1.0" using v by (simp add: field_simps)
    from hsv_to_rgb_max_pos [OF this h] show ?thesis by simp
  next
    case other
    then have h: "hsv_to_rgb h s (0.5 + v * 0.5) = (R, G, B)"
      using assms(4) hsv by (simp add: transform_rgb_def)
    have "0 < 0.5 + v * 0.5" using v by (simp add: field_simps)
    from hsv_to_rgb_max_pos [OF this h] show ?thesis by simp
  qed
qed


text \<open>
  C4: for every CMYK input in the unit cube, converting the output of the CMYK mapper back
  to RGB gives the output of the RGB mapper on the RGB conversion of the input (exactly,
  hence within 1e-6 per component), and when the mapped RGB colour is black the CMYK
  mapper returns (0, 0, 0, 1).
\<close>

theorem cmyk_roundtrip:
  assumes "0 \<le> c" "c \<le> 1" "0 \<le> m" "m \<le> 1" "0 \<le> y" "y \<le> 1" "0 \<le> k" "k \<le> 1"
  shows "(case cmyk_to_rgb (c, m, y, k) of (r, g, b) \<Rightarrow>
            cmyk_to_rgb (transform_cmyk theme c m y k) = transform_rgb theme r g b
            \<and> (transform_rgb theme r g b = (0, 0, 0) \<longrightarrow>
                 transform_cmyk theme c m y k = (0, 0, 0, 1)))"
proof -
  let ?r = "(1 - c) * (1 - k)" and ?g = "(1 - m) * (1 - k)" and ?b = "(1 - y) * (1 - k)"
  obtain R G B where t: "transform_rgb theme ?r ?g ?b = (R, G, B)"
    by (cases "transform_rgb theme ?r ?g ?b")
  have nn: "0 \<le> ?r" "0 \<le> ?g" "0 \<le> ?b" using assms by simp_all
  have inp: "cmyk_to_rgb (c, m, y, k) = (?r, ?g, ?b)" by (simp add: cmyk_to_rgb_def)
  from transform_rgb_zero_or_pos [OF nn t]
  consider (zero) "R = 0" "G = 0" "B = 0" | (pos) "0 < max R (max G B)" by blast
  then show ?thesis
  proof cases
    case zero
    then have "transform_cmyk theme c m y k = (0, 0, 0, 1)"
      by (simp add: transform_cmyk_def t)
    then show ?thesis unfolding inp prod.case t using zero by (simp add: cmyk_to_rgb_def)
  next
    case pos
    then have nz: "\<not> (R = 0 \<and> G = 0 \<and> B = 0)" by auto
    let ?M = "max R (max G B)"
    have ck: "transform_cmyk theme c m y k =
        ((1 - R - (1 - ?M)) / (1 - (1 - ?M)), (1 - G - (1 - ?M)) / (1 - (1 - ?M)),
         (1 - B - (1 - ?M)) / (1 - (1 - ?M)), 1 - ?M)"
      using pos nz by (simp add: transform_cmyk_def t Let_def)
    have M: "?M \<noteq> 0" using pos by simp
    have "cmyk_to_rgb (transform_cmyk theme c m y k) = (R, G, B)"
      unfolding ck cmyk_to_rgb_def using M by (simp add: field_simps)
    then show ?thesis unfolding inp prod.case t using nz by auto
  qed
qed

theorem cmyk_roundtrip_witness:
  "cmyk_to_rgb (transform_cmyk ''classic'' 0 0 0 0) = transform_rgb ''classic'' 1 1 1
   \<and> transform_rgb ''classic'' 1 1 1 = (0, 0, 0)
   \<and> transform_cmyk ''classic'' 0 0 0 0 = (0, 0, 0, 1)"
  using cmyk_roundtrip [of 0 0 0 0 "''classic''"]
  by (simp add: cmyk_to_rgb_def white_to_bg bg_classic)

section \<open>Properties of the content-stream rewriter\<close>

subsection \<open>Matches and replacements\<close>




text \<open>What a successful match consumed.\<close>

lemma operand_SomeD:
  assumes "operand isnum s = Some (tok, rest)"
  shows "\<exists>ws. s = tok @ ws @ rest \<and> ws \<noteq> [] \<and> (\<forall>c\<in>set ws. isspace c) \<and> isnum tok"
proof -
  let ?r = "dropWhile (\<lambda>c. \<not> isspace c) s"
  from assms have tok: "tok = takeWhile (\<lambda>c. \<not> isspace c) s" and num: "isnum tok"
    and r: "?r \<noteq> []" and rest: "rest = dropWhile isspace ?r"
    by (auto simp: operand_def Let_def split: if_splits)
  let ?ws = "takeWhile isspace ?r"
  have "isspace (hd ?r)" using r hd_dropWhile [of "\<lambda>c. \<not> isspace c" s] by simp
  then have "?ws \<noteq> []" using r by (cases ?r) auto
  moreover have "s = tok @ ?ws @ rest" unfolding tok rest by simp
  moreover have "\<forall>c\<in>set ?ws. isspace c" by (auto dest: set_takeWhileD)
  ultimately show ?thesis using num by blast
qed

lemma operands_SomeD:
  assumes "operands isnum n s = Some (toks, rest)" "0 < n"
  shows "\<exists>mid w. s = mid @ w # rest \<and> isspace w
           \<and> (\<forall>c\<in>set mid. isspace c \<or> (\<exists>t\<in>set toks. c \<in> set t))
           \<and> (\<forall>t\<in>set toks. isnum t) \<and> length toks = n"
  using assms
proof (induction n arbitrary: s toks)
  case 0
  then show ?case by simp
next
  case (Suc n)
  from Suc.prems(1) obtain tok s1 toks1 where
    o: "operand isnum s = Some (tok, s1)" and os: "operands isnum n s1 = Some (toks1, rest)"
    and toks: "toks = tok # toks1"
    by (auto split: option.splits)
  from operand_SomeD [OF o] obtain ws where
    ws: "s = tok @ ws @ s1" "ws \<noteq> []" "\<forall>c\<in>set ws. isspace c" "isnum tok" by blast
  show ?case
  proof (cases n)
    case 0
    with os have "toks1 = []" "s1 = rest" by simp_all
    moreover have "ws = butlast ws @ [last ws]" using ws(2) by simp
    ultimately have "s = (tok @ butlast ws) @ last ws # rest" using ws(1)
      by (metis append.assoc append_Cons append_Nil)
    moreover have "isspace (last ws)" using ws(2,3) by simp
    moreover have "\<forall>c\<in>set (tok @ butlast ws). isspace c \<or> (\<exists>t\<in>set toks. c \<in> set t)"
      using ws(3) toks by (auto dest: in_set_butlastD)
    ultimately show ?thesis using ws(4) toks \<open>toks1 = []\<close> 0 by auto
  next
    case (Suc m)
    then have "0 < n" by simp
    from Suc.IH [OF os this] obtain mid w where
      m: "s1 = mid @ w # rest" "isspace w"
         "\<forall>c\<in>set mid. isspace c \<or> (\<exists>t\<in>set toks1. c \<in> set t)"
         "\<forall>t\<in>set toks1. isnum t" "length toks1 = n" by blast
    have "s = (tok @ ws @ mid) @ w # rest" using ws(1) m(1) by simp
    moreover have "\<forall>c\<in>set (tok @ ws @ mid). isspace c \<or> (\<exists>t\<in>set toks. c \<in> set t)"
      using ws(3) m(3) toks by auto
    ultimately show ?thesis using m(2,4,5) ws(4) toks by auto
  qed
qed

lemma match_op_SomeD:
  assumes "match_op isnum n opr wb s = Some (toks, k)" "0 < n"
  shows "\<exists>mid w rest. s = mid @ w # opr @ rest \<and> k = length mid + 1 + length opr \<and> isspace w
           \<and> (\<forall>c\<in>set mid. isspace c \<or> (\<exists>t\<in>set toks. c \<in> set t))
           \<and> (\<forall>t\<in>set toks. isnum t) \<and> length toks = n"
proof -
  from assms(1) obtain rest0 where
    os: "operands isnum n s = Some (toks, rest0)" and pre: "take (length opr) rest0 = opr"
    and k: "k = length s - length rest0 + length opr"
    by (auto simp: match_op_def split: option.splits if_splits)
  from operands_SomeD [OF os assms(2)] obtain mid w where
    m: "s = mid @ w # rest0" "isspace w"
       "\<forall>c\<in>set mid. isspace c \<or> (\<exists>t\<in>set toks. c \<in> set t)"
       "\<forall>t\<in>set toks. isnum t" "length toks = n" by blast
  have "rest0 = opr @ drop (length opr) rest0" using pre by (metis append_take_drop_id)
  then have "s = mid @ w # opr @ drop (length opr) rest0" using m(1) by simp
  moreover have "k = length mid + 1 + length opr" using k m(1) by simp
  ultimately show ?thesis using m(2-5) by blast
qed


text \<open>Streams without an operator letter after white space are left alone.\<close>

lemma no_op_after_space_tl:
  "no_op_after_space (c # cs) \<Longrightarrow> no_op_after_space cs"
  by (cases cs) simp_all

lemma no_op_after_space_mid:
  assumes "no_op_after_space (xs @ w # d # ys)"
  shows "\<not> (isspace w \<and> d \<in> set ''rgkRGK'')"
  using assms
proof (induction xs)
  case Nil
  then show ?case by simp
next
  case (Cons x xs)
  then have "no_op_after_space (xs @ w # d # ys)"
    using no_op_after_space_tl [of x "xs @ w # d # ys"] by simp
  then show ?case by (rule Cons.IH)
qed

lemma match_op_None:
  assumes "no_op_after_space s" "0 < n" "opr \<noteq> []" "hd opr \<in> set ''rgkRGK''"
  shows "match_op isnum n opr wb s = None"
proof (cases "match_op isnum n opr wb s")
  case None
  then show ?thesis .
next
  case (Some r)
  obtain toks k where "r = (toks, k)" by (cases r)
  with Some match_op_SomeD [OF _ assms(2), of isnum opr wb s toks k]
  obtain mid w rest where "s = mid @ w # opr @ rest" "isspace w" by blast
  then have "s = mid @ w # hd opr # (tl opr @ rest)" using assms(3) by simp
  with assms(1) no_op_after_space_mid [of mid w "hd opr" "tl opr @ rest"] \<open>isspace w\<close> assms(4)
  show ?thesis by blast
qed

lemma re_sub_no_match:
  assumes "no_op_after_space s" "0 < n" "opr \<noteq> []" "hd opr \<in> set ''rgkRGK''"
  shows "re_sub (match_op isnum n opr wb) repl 0 s = s"
  using assms(1)
proof (induction s)
  case Nil
  then show ?case by simp
next
  case (Cons c cs)
  have "match_op isnum n opr wb (c # cs) = None"
    using match_op_None [OF Cons.prems assms(2-4)] .
  moreover have "no_op_after_space cs" using Cons.prems by (rule no_op_after_space_tl)
  ultimately show ?case using Cons.IH by simp
qed

lemma transform_no_match:
  assumes "no_op_after_space s"
  shows "transform_content_stream theme s = s"
proof -
  have rg: "re_sub (match_op is_num_b 3 ''rg'' False) (replace_rgb theme ''rg'') 0 s = s"
    by (rule re_sub_no_match [OF assms]) simp_all
  have RG: "re_sub (match_op is_num_b 3 ''RG'' False) (replace_rgb theme ''RG'') 0 s = s"
    by (rule re_sub_no_match [OF assms]) simp_all
  have g: "re_sub (match_op is_num_a 1 ''g'' True) (replace_gray theme ''g'') 0 s = s"
    by (rule re_sub_no_match [OF assms]) simp_all
  have G: "re_sub (match_op is_num_a 1 ''G'' True) (replace_gray theme ''G'') 0 s = s"
    by (rule re_sub_no_match [OF assms]) simp_all
  have k: "re_sub (match_op is_num_a 4 ''k'' True) (replace_cmyk theme ''k'') 0 s = s"
    by (rule re_sub_no_match [OF assms]) simp_all
  have K: "re_sub (match_op is_num_a 4 ''K'' True) (replace_cmyk theme ''K'') 0 s = s"
    by (rule re_sub_no_match [OF assms]) simp_all
  show ?thesis by (simp only: transform_content_stream_def Let_def rg RG g G k K)
qed


text \<open>Building streams without an operator letter after white space.\<close>

lemma no_op_after_space_Cons:
  assumes "no_op_after_space r" "r = [] \<or> hd r \<notin> set ''rgkRGK''"
  shows "no_op_after_space (w # r)"
  using assms by (cases r) auto

lemma no_op_after_space_token:
  assumes "\<forall>c\<in>set t. \<not> isspace c" "no_op_after_space r"
  shows "no_op_after_space (t @ r)"
  using assms(1)
proof (induction t)
  case Nil
  then show ?case using assms(2) by simp
next
  case (Cons c t)
  then have "no_op_after_space (t @ r)" by simp
  moreover have "\<not> isspace c" using Cons.prems by simp
  ultimately show ?case by (cases "t @ r") auto
qed

lemma digit_not_space: "isdigit c \<Longrightarrow> \<not> isspace c"
  by (auto simp: isdigit_def isspace_def)

lemma digit_not_op: "isdigit c \<Longrightarrow> c \<notin> set ''rgkRGK''"
  by (auto simp: isdigit_def)

lemma point_not_space: "\<not> isspace CHR ''.''"
  by (simp add: isspace_def)

lemma blank_is_space: "isspace CHR '' ''"
  by (simp add: isspace_def)

lemma is_num_a_chars:
  assumes "is_num_a t"
  shows "\<forall>c\<in>set t. isdigit c \<or> c = CHR ''.''"
proof -
  have "\<forall>c\<in>set (dropWhile isdigit t). isdigit c \<or> c = CHR ''.''"
  proof (cases "dropWhile isdigit t")
    case Nil
    then show ?thesis by (simp only: list.set ball_empty)
  next
    case (Cons d r)
    with assms have "d = CHR ''.''" "list_all isdigit r"
      by (simp_all only: is_num_a_def list.case)
    then show ?thesis by (simp only: Cons) (auto simp: list_all_iff)
  qed
  moreover have "\<forall>c\<in>set (takeWhile isdigit t). isdigit c" by (auto dest: set_takeWhileD)
  moreover have "set t = set (takeWhile isdigit t) \<union> set (dropWhile isdigit t)"
    by (metis set_append takeWhile_dropWhile_id)
  ultimately show ?thesis by blast
qed

lemma is_num_b_chars:
  assumes "is_num_b t"
  shows "\<forall>c\<in>set t. isdigit c \<or> c = CHR ''.''"
proof -
  have "\<forall>c\<in>set (dropWhile isdigit t). isdigit c \<or> c = CHR ''.''"
  proof (cases "dropWhile isdigit t")
    case Nil
    then show ?thesis by (simp only: list.set ball_empty)
  next
    case (Cons d r)
    with assms have "d = CHR ''.''" "list_all isdigit r"
      by (simp_all only: is_num_b_def list.case)
    then show ?thesis by (simp only: Cons) (auto simp: list_all_iff)
  qed
  moreover have "\<forall>c\<in>set (takeWhile isdigit t). isdigit c" by (auto dest: set_takeWhileD)
  moreover have "set t = set (takeWhile isdigit t) \<union> set (dropWhile isdigit t)"
    by (metis set_append takeWhile_dropWhile_id)
  ultimately show ?thesis by blast
qed

lemma operands_then_op:
  assumes "\<forall>t\<in>set nums. is_num_a t \<or> is_num_b t"
    and "no_op_after_space r" "r \<noteq> []" "hd r \<notin> set ''rgkRGK''"
  shows "no_op_after_space (concat (map (\<lambda>t. t @ '' '') nums) @ r)
     \<and> hd (concat (map (\<lambda>t. t @ '' '') nums) @ r) \<notin> set ''rgkRGK''"
  using assms(1)
proof (induction nums)
  case Nil
  then show ?case using assms(2,4) by simp
next
  case (Cons t nums)
  let ?r = "concat (map (\<lambda>t. t @ '' '') nums) @ r"
  from Cons have ih: "no_op_after_space ?r" "hd ?r \<notin> set ''rgkRGK''" by simp_all
  have ch: "\<forall>c\<in>set t. isdigit c \<or> c = CHR ''.''"
    using Cons.prems is_num_a_chars is_num_b_chars by auto
  then have ns: "\<forall>c\<in>set t. \<not> isspace c"
    using digit_not_space point_not_space by blast
  have "no_op_after_space (CHR '' '' # ?r)"
    using ih by (intro no_op_after_space_Cons) simp_all
  then have a: "no_op_after_space (t @ CHR '' '' # ?r)"
    using ns by (intro no_op_after_space_token)
  have b: "hd (t @ CHR '' '' # ?r) \<notin> set ''rgkRGK''"
  proof (cases t)
    case Nil
    then show ?thesis by simp
  next
    case (Cons c cs)
    then have "isdigit c \<or> c = CHR ''.''" using ch by simp
    then show ?thesis using Cons digit_not_op by auto
  qed
  from a b show ?case by simp
qed

lemma sc_stream_no_op:
  assumes "\<forall>c\<in>set space. \<not> isspace c" "csop \<in> {''cs'', ''CS''}"
    and "\<forall>t\<in>set nums. is_num_a t \<or> is_num_b t" "scop \<in> {''sc'', ''SC''}"
  shows "no_op_after_space (sc_stream space csop nums scop)"
proof -
  let ?ops = "concat (map (\<lambda>t. t @ '' '') nums) @ scop"
  have sc: "no_op_after_space scop" "scop \<noteq> []" "hd scop \<notin> set ''rgkRGK''"
    using assms(4) by (auto simp: isspace_def)
  from operands_then_op [OF assms(3) sc]
  have ops: "no_op_after_space ?ops" "hd ?ops \<notin> set ''rgkRGK''" by simp_all
  have "no_op_after_space (CHR '' '' # ?ops)"
    using ops by (intro no_op_after_space_Cons) simp_all
  moreover have "\<forall>c\<in>set csop. \<not> isspace c" using assms(2) by (auto simp: isspace_def)
  ultimately have "no_op_after_space (csop @ CHR '' '' # ?ops)"
    by (intro no_op_after_space_token)
  moreover have "hd (csop @ CHR '' '' # ?ops) \<notin> set ''rgkRGK''" using assms(2) by auto
  ultimately have "no_op_after_space (CHR '' '' # csop @ CHR '' '' # ?ops)"
    by (intro no_op_after_space_Cons) simp_all
  moreover have "\<forall>c\<in>set (''/'' @ space). \<not> isspace c"
    using assms(1) by (auto simp: isspace_def)
  ultimately have "no_op_after_space ((''/'' @ space) @ CHR '' '' # csop @ CHR '' '' # ?ops)"
    by (intro no_op_after_space_token)
  then show ?thesis by (simp add: sc_stream_def)
qed












subsection \<open>C3: what the rewriter leaves alone\<close>













subsection \<open>C6: the operators \<open>sc\<close> and \<open>SC\<close>\<close>

text \<open>
  C6 as stated (under DeviceGray, DeviceRGB or DeviceCMYK the operands of \<open>sc\<close> and \<open>SC\<close>
  are rewritten through the colour mapper) fails: none of the six patterns ends in \<open>sc\<close>
  or \<open>SC\<close> and no colour space is tracked, so black set with \<open>sc\<close> under DeviceRGB stays
  \<open>0 0 0\<close>, although the RGB mapper sends black to (0.98, 0.98, 0.98).
\<close>

theorem sc_not_rewritten_counterexample:
  "transform_content_stream ''claude'' ''/DeviceRGB cs 0 0 0 sc'' = ''/DeviceRGB cs 0 0 0 sc''
   \<and> transform_rgb ''claude'' 0 0 0 = (0.98, 0.98, 0.98)"
proof -
  have "no_op_after_space ''/DeviceRGB cs 0 0 0 sc''" by (simp add: isspace_def)
  then have "transform_content_stream ''claude'' ''/DeviceRGB cs 0 0 0 sc''
      = ''/DeviceRGB cs 0 0 0 sc''" by (rule transform_no_match)
  moreover have "transform_rgb ''claude'' 0 0 0 = (0.98, 0.98, 0.98)"
    by (simp add: transform_rgb_def rgb_to_hsv_def Let_def)
  ultimately show ?thesis by simp
qed

text \<open>
  C6, amended: whatever the colour space, device spaces included, a content stream
  \<open>/name cs o1 ... on sc\<close> that selects a colour space (a name without white space) with
  \<open>cs\<close> or \<open>CS\<close> and then gives any number of numeric operands to \<open>sc\<close> or \<open>SC\<close> passes
  through the rewriter unchanged, operator and operands alike.
\<close>

theorem sc_passes_through:
  assumes "\<forall>c\<in>set space. \<not> isspace c" "csop \<in> {''cs'', ''CS''}"
    and "\<forall>t\<in>set nums. is_num_a t \<or> is_num_b t" "scop \<in> {''sc'', ''SC''}"
  shows "transform_content_stream theme (sc_stream space csop nums scop)
     = sc_stream space csop nums scop"
  using sc_stream_no_op [OF assms] by (rule transform_no_match)

theorem sc_passes_through_witness:
  "sc_stream ''DeviceGray'' ''CS'' [''0.5''] ''SC'' = ''/DeviceGray CS 0.5 SC''
   \<and> transform_content_stream ''forest'' ''/DeviceGray CS 0.5 SC'' = ''/DeviceGray CS 0.5 SC''"
  using sc_passes_through [where space = "''DeviceGray''" and csop = "''CS''"
      and nums = "[''0.5'']" and scop = "''SC''" and theme = "''forest''"]
  by (simp add: sc_stream_def isspace_def is_num_a_def isdigit_def)

section \<open>Properties of page processing\<close>

lemma process_page_read_fails:
  assumes "Contents (underlaid ul theme page) = Some contents" "read_contents contents = Inl e"
  shows "process_page ul theme page = underlaid ul theme page"
  using assms by (simp add: process_page_def process_page_try_def Let_def)

lemma process_page_read_ok:
  assumes "Contents (underlaid ul theme page) = Some contents"
    and "read_contents contents = Inr all_content"
  shows "process_page ul theme page =
     (underlaid ul theme page)\<lparr>Contents :=
        Some (Single (Stream (Inr (transform_content_stream theme (join_lines all_content)))))\<rparr>"
  using assms by (simp add: process_page_def process_page_try_def Let_def)

subsection \<open>C7: an exception on one page\<close>

text \<open>
  C7: when reading the content streams of page \<open>i\<close> raises, the document keeps all its
  pages, page \<open>i\<close> comes out as \<open>add_underlay\<close> left it (its own content streams with the
  background in front, nothing rewritten), and any page \<open>j\<close> whose streams can be read is
  processed as usual: its \<open>/Contents\<close> is the rewritten text of its streams.
\<close>

theorem failing_page_isolated:
  assumes "i < length pages" "j < length pages"
    and "Contents (underlaid ul theme (pages ! i)) = Some ci" "read_contents ci = Inl e"
    and "Contents (underlaid ul theme (pages ! j)) = Some cj" "read_contents cj = Inr all_content"
  shows "length (process_pdf ul theme pages) = length pages
     \<and> process_pdf ul theme pages ! i = underlaid ul theme (pages ! i)
     \<and> process_pdf ul theme pages ! j =
         (underlaid ul theme (pages ! j))\<lparr>Contents :=
            Some (Single (Stream (Inr (transform_content_stream theme (join_lines all_content)))))\<rparr>"
proof -
  have "process_pdf ul theme pages ! i = process_page ul theme (pages ! i)"
    using assms(1) by (simp add: process_pdf_def)
  moreover have "process_pdf ul theme pages ! j = process_page ul theme (pages ! j)"
    using assms(2) by (simp add: process_pdf_def)
  moreover have "length (process_pdf ul theme pages) = length pages"
    by (simp add: process_pdf_def)
  ultimately show ?thesis
    using process_page_read_fails [OF assms(3,4)] process_page_read_ok [OF assms(5,6)]
    by simp
qed

theorem failing_page_isolated_witness:
  "process_pdf prepend_underlay ''claude'' [unreadable_page, text_page] ! 0
     = underlaid prepend_underlay ''claude'' unreadable_page
   \<and> process_pdf prepend_underlay ''claude'' [unreadable_page, text_page] ! 1 =
        (underlaid prepend_underlay ''claude'' text_page)\<lparr>Contents :=
            Some (Single (Stream (Inr (transform_content_stream ''claude''
               (join_lines [''q /Fx0 Do Q'', ''BT ET''])))))\<rparr>"
  using failing_page_isolated [where pages = "[unreadable_page, text_page]" and i = 0 and j = 1
      and ul = prepend_underlay and theme = "''claude''"
      and ci = "Array [Stream (Inr ''q /Fx0 Do Q''),
                       Stream (Inl (Exception ''unfilterable stream''))]"
      and e = "Exception ''unfilterable stream''"
      and cj = "Array [Stream (Inr ''q /Fx0 Do Q''), Stream (Inr ''BT ET'')]"
      and all_content = "[''q /Fx0 Do Q'', ''BT ET'']"]
  by (simp add: underlaid_def prepend_underlay_def unreadable_page_def text_page_def Let_def)

subsection \<open>C10: a page without \<open>/Contents\<close>\<close>



end
